theory Spec2Isabelle
  imports Main "HOL-Library.AList"
begin

section \<open>Data model\<close>

text \<open>
  JavaScript values as far as the orchestrator (\<open>MetaPrototype\<close>) and the theme module
  (\<open>resolveTokens\<close>) handle them: the primitives, dense arrays and plain objects,
  which is what object literals and \<open>JSON.parse\<close> build. A plain object is the list of
  its own enumerable properties, in the order the source enumerates them, with pairwise
  distinct keys; its prototype is \<open>Object.prototype\<close> and is not stored.
  Where an assignment adds a key the model appends it; JavaScript enumerates
  integer-like keys before the others, a difference in order that no property below
  reads. The type parameter \<open>'n\<close> stands for the JavaScript number: the code below never
  computes with the numbers stored in a snapshot or in a token tree.
\<close>

datatype 'n jsval =
    JUndefined
  | JNull
  | JBool bool
  | JNum 'n
  | JStr string
  | JArr "'n jsval list"
  | JObj "(string \<times> 'n jsval) list"

text \<open>\<open>WindowId = 'control' | 'code' | 'console'\<close>\<close>

datatype WindowId = control | code | console

text \<open>
  \<open>interface WindowState\<close>. The field \<open>id\<close> is named \<open>id_win\<close> here.
  \<open>zIndex\<close>, \<open>x\<close> and \<open>y\<close> are JavaScript numbers that only ever hold integers;
  they are integers here (a double is exact on integers of magnitude up to \<open>2 ^ 53\<close>).
\<close>

record WindowState =
  id_win :: WindowId
  title :: string
  isOpen :: bool
  zIndex :: int
  x :: int
  y :: int

text \<open>\<open>interface LogEntry\<close>. The field \<open>id\<close> is named \<open>id_log\<close> here.\<close>

record LogEntry =
  id_log :: string
  timestamp :: string
  message :: string

text \<open>
  The \<open>useState\<close> cells of \<open>MetaPrototype\<close>. An event handler reads the cells of the
  render it was created in and its updates are applied together before the next
  render, so one handler call is one transition of this record.
\<close>

record 'n app_state =
  btnProps :: "'n jsval"
  showMeasurements :: bool
  showTokens :: bool
  view3D :: bool
  confettiTrigger :: int
  logs :: "LogEntry list"
  history :: "'n jsval list"
  future :: "'n jsval list"
  windows :: "WindowId \<Rightarrow> WindowState"
  codeText :: string
  isCodeFocused :: bool

text \<open>The initial values given to \<open>useState\<close>.\<close>

definition initial_btnProps :: "'n jsval" where
  "initial_btnProps = JObj
     [(''label'', JStr ''SusButton''),
      (''type'', JStr ''primary''),
      (''size'', JStr ''m''),
      (''radius'', JStr ''8px''),
      (''iconPlacement'', JStr ''left''),
      (''icon'', JStr ''ph-check''),
      (''disabled'', JBool False),
      (''forcedHover'', JBool False),
      (''forcedFocus'', JBool False),
      (''forcedActive'', JBool False)]"

definition WINDOW_WIDTH :: int where "WINDOW_WIDTH = 400"
definition CONTROL_PANEL_HEIGHT :: int where "CONTROL_PANEL_HEIGHT = 680"
definition CODE_PANEL_HEIGHT :: int where "CODE_PANEL_HEIGHT = 420"

fun initial_windows :: "WindowId \<Rightarrow> WindowState" where
  "initial_windows control =
     \<lparr>id_win = control, title = ''Control'', isOpen = True, zIndex = 1,
      x = - WINDOW_WIDTH div 2 - 220, y = - CONTROL_PANEL_HEIGHT div 2\<rparr>"
| "initial_windows code =
     \<lparr>id_win = code, title = ''Code I/O'', isOpen = False, zIndex = 2,
      x = - WINDOW_WIDTH div 2 + 220, y = - CODE_PANEL_HEIGHT div 2\<rparr>"
| "initial_windows console =
     \<lparr>id_win = console, title = ''Console'', isOpen = False, zIndex = 3,
      x = - WINDOW_WIDTH div 2, y = 150\<rparr>"

definition initial_state :: "'n app_state" where
  "initial_state =
     \<lparr>btnProps = initial_btnProps,
      showMeasurements = False,
      showTokens = False,
      view3D = False,
      confettiTrigger = 0,
      logs = [],
      history = [],
      future = [],
      windows = initial_windows,
      codeText = [],
      isCodeFocused = False\<rparr>"

section \<open>Log sink\<close>

text \<open>
  \<open>Array.prototype.slice(-n)\<close>: the last \<open>n\<close> elements, the whole array when it has
  fewer (the start index is \<open>max (length - n) 0\<close>, which is what the subtraction on
  \<open>nat\<close> computes).
\<close>

definition slice_last :: "nat \<Rightarrow> 'a list \<Rightarrow> 'a list" where
  "slice_last n xs = drop (length xs - n) xs"

text \<open>
  \<open>logEvent\<close>. The random id and the clock reading come from the environment; they are
  the pair \<open>stamp\<close> handed to every handler that logs.
\<close>

type_synonym stamp = "string \<times> string"

definition logEvent :: "stamp \<Rightarrow> string \<Rightarrow> 'n app_state \<Rightarrow> 'n app_state" where
  "logEvent st msg s =
     (let entry = \<lparr>id_log = fst st, timestamp = snd st, message = msg\<rparr>
      in s\<lparr>logs := slice_last 50 (logs s @ [entry])\<rparr>)"

text \<open>
  A sequence of \<open>logEvent\<close> calls, each with its stamp and message, run in order, and
  the entry one call builds.
\<close>

definition log_calls :: "(stamp \<times> string) list \<Rightarrow> 'n app_state \<Rightarrow> 'n app_state" where
  "log_calls cs s = fold (\<lambda>(st, msg). logEvent st msg) cs s"

definition entry_of :: "stamp \<times> string \<Rightarrow> LogEntry" where
  "entry_of c = \<lparr>id_log = fst (fst c), timestamp = snd (fst c), message = snd c\<rparr>"

section \<open>History manager\<close>

text \<open>\<open>updateBtnProps(newProps, saveHistory)\<close>\<close>

definition updateBtnProps :: "'n jsval \<Rightarrow> bool \<Rightarrow> 'n app_state \<Rightarrow> 'n app_state" where
  "updateBtnProps newProps saveHistory s =
     (let s1 = (if saveHistory
                then s\<lparr>history := history s @ [btnProps s], future := []\<rparr>
                else s)
      in s1\<lparr>btnProps := newProps\<rparr>)"

text \<open>\<open>handleUndo\<close>\<close>

definition handleUndo :: "stamp \<Rightarrow> 'n app_state \<Rightarrow> 'n app_state" where
  "handleUndo st s =
     (if length (history s) = 0 then s
      else
        let previous = last (history s);
            newHistory = butlast (history s)
        in logEvent st ''Undo performed''
             (s\<lparr>future := btnProps s # future s,
                btnProps := previous,
                history := newHistory\<rparr>))"

text \<open>\<open>handleRedo\<close>\<close>

definition handleRedo :: "stamp \<Rightarrow> 'n app_state \<Rightarrow> 'n app_state" where
  "handleRedo st s =
     (if length (future s) = 0 then s
      else
        let next = hd (future s);
            newFuture = tl (future s)
        in logEvent st ''Redo performed''
             (s\<lparr>history := history s @ [btnProps s],
                btnProps := next,
                future := newFuture\<rparr>))"

text \<open>
  Sequences of calls, run in order: \<open>apply\<close> with \<open>saveHistory = true\<close> on each snapshot
  of a list, and one undo (redo) per stamp of a list.
\<close>

definition applies :: "'n jsval list \<Rightarrow> 'n app_state \<Rightarrow> 'n app_state" where
  "applies ps s = fold (\<lambda>p. updateBtnProps p True) ps s"

definition undos :: "stamp list \<Rightarrow> 'n app_state \<Rightarrow> 'n app_state" where
  "undos sts s = fold handleUndo sts s"

definition redos :: "stamp list \<Rightarrow> 'n app_state \<Rightarrow> 'n app_state" where
  "redos sts s = fold handleRedo sts s"

text \<open>
  The snapshots of a state laid out in time: the past, the current one, the future.
  Undo and redo move the current position along this line without changing it.
\<close>

definition timeline :: "'n app_state \<Rightarrow> 'n jsval list" where
  "timeline s = history s @ btnProps s # future s"

section \<open>Window manager\<close>

text \<open>
  \<open>Math.max(...Object.values(prev).map(w => w.zIndex))\<close> over the three records of
  \<open>Record<WindowId, WindowState>\<close>.
\<close>

definition maxZ :: "(WindowId \<Rightarrow> WindowState) \<Rightarrow> int" where
  "maxZ prev = max (zIndex (prev control)) (max (zIndex (prev code)) (zIndex (prev console)))"

text \<open>\<open>bringToFront(id)\<close>\<close>

definition bringToFront :: "WindowId \<Rightarrow> 'n app_state \<Rightarrow> 'n app_state" where
  "bringToFront i s =
     (let prev = windows s
      in if zIndex (prev i) = maxZ prev then s
         else s\<lparr>windows := prev(i := (prev i)\<lparr>zIndex := maxZ prev + 1\<rparr>)\<rparr>)"

text \<open>\<open>toggleWindow(id)\<close>\<close>

definition toggleWindow :: "WindowId \<Rightarrow> 'n app_state \<Rightarrow> 'n app_state" where
  "toggleWindow i s =
     (let prev = windows s;
          isOpen' = \<not> isOpen (prev i);
          next = prev(i := (prev i)\<lparr>isOpen := isOpen'\<rparr>)
      in s\<lparr>windows :=
            (if isOpen' then next(i := (next i)\<lparr>zIndex := maxZ prev + 1\<rparr>) else next)\<rparr>)"

text \<open>The two calls the window manager accepts, and a sequence of them run in order.\<close>

datatype window_call = Toggle WindowId | BringToFront WindowId

fun window_step :: "window_call \<Rightarrow> 'n app_state \<Rightarrow> 'n app_state" where
  "window_step (Toggle i) s = toggleWindow i s"
| "window_step (BringToFront i) s = bringToFront i s"

definition window_run :: "window_call list \<Rightarrow> 'n app_state \<Rightarrow> 'n app_state" where
  "window_run cs s = fold window_step cs s"

text \<open>The three z-orders are pairwise distinct.\<close>

definition z_distinct :: "(WindowId \<Rightarrow> WindowState) \<Rightarrow> bool" where
  "z_distinct w \<longleftrightarrow>
     zIndex (w control) \<noteq> zIndex (w code) \<and>
     zIndex (w control) \<noteq> zIndex (w console) \<and>
     zIndex (w code) \<noteq> zIndex (w console)"

section \<open>Overlay toggles\<close>

text \<open>\<open>handleToggleMeasurements\<close>\<close>

definition handleToggleMeasurements :: "stamp \<Rightarrow> 'n app_state \<Rightarrow> 'n app_state" where
  "handleToggleMeasurements st s =
     (let s1 = s\<lparr>showMeasurements := \<not> showMeasurements s\<rparr>;
          s2 = (if showTokens s then s1\<lparr>showTokens := False\<rparr> else s1)
      in logEvent st
           (''Measurements toggled: '' @ (if \<not> showMeasurements s then ''On'' else ''Off'')) s2)"

text \<open>\<open>handleToggleTokens\<close>\<close>

definition handleToggleTokens :: "stamp \<Rightarrow> 'n app_state \<Rightarrow> 'n app_state" where
  "handleToggleTokens st s =
     (let s1 = s\<lparr>showTokens := \<not> showTokens s\<rparr>;
          s2 = (if showMeasurements s then s1\<lparr>showMeasurements := False\<rparr> else s1)
      in logEvent st
           (''Tokens toggled: '' @ (if \<not> showTokens s then ''On'' else ''Off'')) s2)"

datatype overlay_event = ToggleMeasurements stamp | ToggleTokens stamp

fun overlay_step :: "overlay_event \<Rightarrow> 'n app_state \<Rightarrow> 'n app_state" where
  "overlay_step (ToggleMeasurements st) s = handleToggleMeasurements st s"
| "overlay_step (ToggleTokens st) s = handleToggleTokens st s"

definition overlay_run :: "overlay_event list \<Rightarrow> 'n app_state \<Rightarrow> 'n app_state" where
  "overlay_run es s = fold overlay_step es s"

section \<open>Property and code edits\<close>

text \<open>Decimal digits of an array index, as property keys are written.\<close>

fun string_of_nat :: "nat \<Rightarrow> string" where
  "string_of_nat n =
     (if n < 10 then [''0123456789'' ! n]
      else string_of_nat (n div 10) @ [''0123456789'' ! (n mod 10)])"

declare string_of_nat.simps [simp del]

text \<open>The elements of an array, or the characters of a string, under their index keys.\<close>

fun index_from :: "nat \<Rightarrow> 'a list \<Rightarrow> (string \<times> 'a) list" where
  "index_from i [] = []"
| "index_from i (a # as) = (string_of_nat i, a) # index_from (Suc i) as"

text \<open>
  The own enumerable properties of a value, which is what object spread (\<open>{...v}\<close>) and
  \<open>for (key in v)\<close> guarded by \<open>hasOwnProperty\<close> visit: the entries of an object, the
  indexed elements of an array, the indexed characters of a string, nothing for the
  other primitives.
\<close>

fun own_props :: "'n jsval \<Rightarrow> (string \<times> 'n jsval) list" where
  "own_props (JObj kvs) = kvs"
| "own_props (JArr xs) = index_from 0 xs"
| "own_props (JStr t) = index_from 0 (map (\<lambda>c. JStr [c]) t)"
| "own_props v = []"

text \<open>\<open>Array.prototype.join\<close> on strings.\<close>

fun join :: "string \<Rightarrow> string list \<Rightarrow> string" where
  "join sep [] = []"
| "join sep [a] = a"
| "join sep (a # b # bs) = a @ sep @ join sep (b # bs)"

text \<open>
  \<open>handlePropChange(keyOrObj, value)\<close>. \<open>keyOrObj\<close> is a key (\<open>Inl\<close>) or the entries of a
  partial snapshot (\<open>Inr\<close>). The string conversion a template literal applies to
  \<open>value\<close> is a language primitive and is the parameter \<open>to_str\<close>.
\<close>

definition handlePropChange ::
  "('n jsval \<Rightarrow> string) \<Rightarrow> stamp \<Rightarrow> string + (string \<times> 'n jsval) list \<Rightarrow> 'n jsval \<Rightarrow>
     'n app_state \<Rightarrow> 'n app_state" where
  "handlePropChange to_str st keyOrObj val s =
     (case keyOrObj of
        Inl key \<Rightarrow>
          logEvent st (''Prop updated: '' @ key @ '' = '' @ to_str val)
            (updateBtnProps (JObj (AList.update key val (own_props (btnProps s)))) True s)
      | Inr obj \<Rightarrow>
          logEvent st (''State updated: '' @ join '', '' (map fst obj))
            (updateBtnProps
               (JObj (fold (\<lambda>(k, v). AList.update k v) obj (own_props (btnProps s)))) True s))"

text \<open>
  \<open>handleCodeChange\<close>. \<open>JSON.parse\<close> is a language primitive: its outcome on the new
  text is the argument \<open>parsed\<close>, \<open>Some\<close> of the value it returns and \<open>None\<close> where it
  throws, which the handler catches and ignores. The effect that rewrites \<open>codeText\<close>
  from \<open>btnProps\<close> runs only after \<open>btnProps\<close> or \<open>isCodeFocused\<close> has changed and is
  not part of the handler.
\<close>

definition handleCodeChange ::
  "string \<Rightarrow> 'n jsval option \<Rightarrow> 'n app_state \<Rightarrow> 'n app_state" where
  "handleCodeChange newVal parsed s =
     (let s1 = s\<lparr>codeText := newVal\<rparr>
      in case parsed of
           Some v \<Rightarrow> updateBtnProps v True s1
         | None \<Rightarrow> s1)"

section \<open>Token resolver\<close>

text \<open>
  Modelled from the spec: the type \<open>Breakpoint\<close> is imported from
  \<open>hooks/useBreakpoint.tsx\<close>, which is not among the sources; the spec names the three
  breakpoints mobile, tablet and desktop, and the resolver reads exactly these keys.
\<close>

datatype Breakpoint = mobile | tablet | desktop

fun key_of :: "Breakpoint \<Rightarrow> string" where
  "key_of mobile = ''mobile''"
| "key_of tablet = ''tablet''"
| "key_of desktop = ''desktop''"

text \<open>\<open>k in value\<close> and \<open>value[k]\<close> on a plain object given by its entries.\<close>

definition has_key :: "string \<Rightarrow> (string \<times> 'n jsval) list \<Rightarrow> bool" where
  "has_key k kvs \<longleftrightarrow> k \<in> set (map fst kvs)"

definition get_prop :: "(string \<times> 'n jsval) list \<Rightarrow> string \<Rightarrow> 'n jsval" where
  "get_prop kvs k = (case map_of kvs k of Some v \<Rightarrow> v | None \<Rightarrow> JUndefined)"

text \<open>\<open>a ?? b\<close>\<close>

fun nullish :: "'n jsval \<Rightarrow> 'n jsval \<Rightarrow> 'n jsval" where
  "nullish JUndefined b = b"
| "nullish JNull b = b"
| "nullish a b = a"

text \<open>\<open>isResponsiveObject\<close>\<close>

fun isResponsiveObject :: "'n jsval \<Rightarrow> bool" where
  "isResponsiveObject (JObj kvs) =
     (has_key ''mobile'' kvs \<or> has_key ''tablet'' kvs \<or> has_key ''desktop'' kvs)"
| "isResponsiveObject v = False"

text \<open>
  The assignment \<open>resolved[key] = v\<close> on the plain object \<open>resolved\<close>. The key
  \<open>__proto__\<close> is an accessor inherited from \<open>Object.prototype\<close>: assigning to it
  creates no own property. (It replaces the prototype of \<open>resolved\<close> when \<open>v\<close> is an
  object or \<open>null\<close>, which a list of own properties cannot show; the properties below
  are stated for trees without this key.) Every other key is set in place or appended.
\<close>

definition assign_prop ::
  "string \<Rightarrow> 'n jsval \<Rightarrow> (string \<times> 'n jsval) list \<Rightarrow> (string \<times> 'n jsval) list" where
  "assign_prop key v resolved =
     (if key = ''__proto__'' then resolved else AList.update key v resolved)"

text \<open>
  \<open>resolveTokens\<close>, as three functions that call each other.
  \<open>resolve_value\<close> is the body of the loop: what is assigned to \<open>resolved[key]\<close> for
  the value read from \<open>obj[key]\<close>, by the three branches in the order of the source.
  The recursive call \<open>resolveTokens(value, breakpoint)\<close> is the loop started with an
  empty \<open>resolved\<close>: \<open>resolve_loop\<close> over the entries of an object, \<open>resolve_items\<close>
  over the elements of an array, whose keys are the indices counted from the first
  argument. An array has none of the three breakpoint keys, so \<open>isResponsiveObject\<close> is
  false of it and \<open>typeof value === 'object'\<close> sends it to the recursive call.
\<close>

fun resolve_value :: "'n jsval \<Rightarrow> Breakpoint \<Rightarrow> 'n jsval"
  and resolve_loop ::
    "(string \<times> 'n jsval) list \<Rightarrow> Breakpoint \<Rightarrow> (string \<times> 'n jsval) list \<Rightarrow>
       (string \<times> 'n jsval) list"
  and resolve_items ::
    "nat \<Rightarrow> 'n jsval list \<Rightarrow> Breakpoint \<Rightarrow> (string \<times> 'n jsval) list \<Rightarrow>
       (string \<times> 'n jsval) list" where
  "resolve_value (JObj kvs) bp =
     (if isResponsiveObject (JObj kvs)
      then nullish (nullish (nullish (get_prop kvs (key_of bp)) (get_prop kvs ''desktop''))
                      (get_prop kvs ''tablet''))
             (get_prop kvs ''mobile'')
      else JObj (resolve_loop kvs bp []))"
| "resolve_value (JArr xs) bp = JObj (resolve_items 0 xs bp [])"
| "resolve_value v bp = v"
| "resolve_loop [] bp resolved = resolved"
| "resolve_loop ((key, v) # rest) bp resolved =
     resolve_loop rest bp (assign_prop key (resolve_value v bp) resolved)"
| "resolve_items i [] bp resolved = resolved"
| "resolve_items i (v # rest) bp resolved =
     resolve_items (Suc i) rest bp (assign_prop (string_of_nat i) (resolve_value v bp) resolved)"

text \<open>\<open>resolveTokens(obj, breakpoint)\<close>: the loop over the own properties of \<open>obj\<close>.\<close>

definition resolveTokens :: "'n jsval \<Rightarrow> Breakpoint \<Rightarrow> 'n jsval" where
  "resolveTokens obj bp = JObj (resolve_loop (own_props obj) bp [])"

text \<open>
  A tree of plain objects as the properties below take it: in every object, at any
  depth, the keys are pairwise distinct and none is \<open>__proto__\<close>.
\<close>

fun plain_tree :: "'n jsval \<Rightarrow> bool"
  and plain_entries :: "(string \<times> 'n jsval) list \<Rightarrow> bool"
  and plain_items :: "'n jsval list \<Rightarrow> bool" where
  "plain_tree (JObj kvs) =
     (distinct (map fst kvs) \<and> ''__proto__'' \<notin> set (map fst kvs) \<and> plain_entries kvs)"
| "plain_tree (JArr xs) = plain_items xs"
| "plain_tree v = True"
| "plain_entries [] = True"
| "plain_entries ((k, v) # rest) = (plain_tree v \<and> plain_entries rest)"
| "plain_items [] = True"
| "plain_items (v # rest) = (plain_tree v \<and> plain_items rest)"

text \<open>
  The selection of a responsive value, written after the words of the specification
  and not after the code: the value for the requested breakpoint, falling back in the
  order desktop, tablet, mobile. The specification passes over a candidate whose key is
  absent; here a candidate is passed over as well when its value is \<open>null\<close> or
  \<open>undefined\<close>, and when all four are passed over the result is what the object has
  under \<open>mobile\<close>.
\<close>

fun is_nullish :: "'n jsval \<Rightarrow> bool" where
  "is_nullish JUndefined = True"
| "is_nullish JNull = True"
| "is_nullish v = False"

definition spec_select :: "(string \<times> 'n jsval) list \<Rightarrow> Breakpoint \<Rightarrow> 'n jsval" where
  "spec_select kvs bp =
     (case find (\<lambda>k. has_key k kvs \<and> \<not> is_nullish (get_prop kvs k))
             [key_of bp, ''desktop'', ''tablet'', ''mobile''] of
        Some k \<Rightarrow> get_prop kvs k
      | None \<Rightarrow> get_prop kvs ''mobile'')"

section \<open>Properties of the log sink\<close>

lemma logEvent_fields [simp]:
  "btnProps (logEvent st msg s) = btnProps s"
  "history (logEvent st msg s) = history s"
  "future (logEvent st msg s) = future s"
  "showMeasurements (logEvent st msg s) = showMeasurements s"
  "showTokens (logEvent st msg s) = showTokens s"
  "windows (logEvent st msg s) = windows s"
  "codeText (logEvent st msg s) = codeText s"
  by (simp_all add: logEvent_def)

lemma slice_last_snoc: "slice_last (Suc n) (xs @ [e]) = slice_last n xs @ [e]"
  by (simp add: slice_last_def)

lemma slice_last_twice: "m \<le> n \<Longrightarrow> slice_last m (slice_last n xs) = slice_last m xs"
proof -
  assume "m \<le> n"
  then have "length xs - (length xs - n) - m + (length xs - n) = length xs - m" by arith
  then show ?thesis by (simp add: slice_last_def)
qed

lemma length_slice_last: "length (slice_last n xs) = min n (length xs)"
  by (simp add: slice_last_def)

lemma logs_logEvent:
  "logs (logEvent st msg s) =
     slice_last 49 (logs s) @ [\<lparr>id_log = fst st, timestamp = snd st, message = msg\<rparr>]"
proof -
  have "slice_last 50 (logs s @ [\<lparr>id_log = fst st, timestamp = snd st, message = msg\<rparr>]) =
      slice_last 49 (logs s) @ [\<lparr>id_log = fst st, timestamp = snd st, message = msg\<rparr>]"
    using slice_last_snoc [of 49] by simp
  then show ?thesis by (simp add: logEvent_def)
qed

lemma slice_last_50_snoc: "slice_last 50 (xs @ [e]) = slice_last 49 xs @ [e]"
  by (simp add: slice_last_def)

lemma slice_last_all: "length xs \<le> n \<Longrightarrow> slice_last n xs = xs"
  by (simp add: slice_last_def)

lemma slice_last_append: "n \<le> length ys \<Longrightarrow> slice_last n (xs @ ys) = slice_last n ys"
  by (simp add: slice_last_def)

lemma log_calls_snoc: "log_calls (cs @ [c]) s = logEvent (fst c) (snd c) (log_calls cs s)"
  by (cases c) (simp add: log_calls_def)

lemma logs_log_calls:
  "cs \<noteq> [] \<Longrightarrow> logs (log_calls cs s) = slice_last 50 (logs s @ map entry_of cs)"
proof (induction cs rule: rev_induct)
  case Nil
  then show ?case by simp
next
  case (snoc c cs)
  show ?case
  proof (cases "cs = []")
    case True
    then show ?thesis
      by (cases c) (simp add: log_calls_def logEvent_def entry_of_def)
  next
    case False
    have "logs (log_calls (cs @ [c]) s) = slice_last 49 (logs (log_calls cs s)) @ [entry_of c]"
      by (simp add: log_calls_snoc logs_logEvent entry_of_def)
    also have "\<dots> = slice_last 49 (logs s @ map entry_of cs) @ [entry_of c]"
      using snoc.IH [OF False] by (simp add: slice_last_twice)
    also have "\<dots> = slice_last 50 ((logs s @ map entry_of cs) @ [entry_of c])"
      by (simp only: slice_last_50_snoc)
    finally show ?thesis by simp
  qed
qed

text \<open>
  C9. One \<open>logEvent\<close> call leaves at most 50 entries, its entry is the last one and
  the entries before it are the last 49 of the old log. A log of at most 50 entries
  stays so under any sequence of calls, and after 60 calls the messages in the log are
  those of the last 50 calls, in call order.
\<close>

theorem log_bounded:
  "length (logs (logEvent st msg s)) \<le> 50 \<and>
   last (logs (logEvent st msg s)) = \<lparr>id_log = fst st, timestamp = snd st, message = msg\<rparr> \<and>
   butlast (logs (logEvent st msg s)) = slice_last 49 (logs s) \<and>
   (length (logs s) \<le> 50 \<longrightarrow> length (logs (log_calls cs s)) \<le> 50) \<and>
   (length cs = 60 \<longrightarrow> map message (logs (log_calls cs s)) = map snd (drop 10 cs))"
proof -
  have a: "length (logs (logEvent st msg s)) \<le> 50"
    by (simp add: logEvent_def length_slice_last)
  have b: "length (logs s) \<le> 50 \<longrightarrow> length (logs (log_calls cs s)) \<le> 50"
  proof (cases "cs = []")
    case True
    then show ?thesis by (simp add: log_calls_def)
  next
    case False
    then show ?thesis by (simp add: logs_log_calls length_slice_last)
  qed
  have c: "length cs = 60 \<longrightarrow> map message (logs (log_calls cs s)) = map snd (drop 10 cs)"
  proof
    assume l: "length cs = 60"
    then have ne: "cs \<noteq> []" by auto
    have "logs (log_calls cs s) = slice_last 50 (map entry_of cs)"
      using l by (simp add: logs_log_calls [OF ne] slice_last_append)
    also have "\<dots> = drop 10 (map entry_of cs)"
      using l by (simp add: slice_last_def)
    finally show "map message (logs (log_calls cs s)) = map snd (drop 10 cs)"
      by (simp add: drop_map entry_of_def)
  qed
  show ?thesis using a b c by (simp add: logs_logEvent)
qed

theorem log_bounded_witness:
  "length (map (\<lambda>i. ((''id'', ''10:00''), string_of_nat i)) [0..<60]) = 60 \<and>
   map message (logs (log_calls (map (\<lambda>i. ((''id'', ''10:00''), string_of_nat i)) [0..<60])
       (initial_state :: int app_state)))
     = map snd (drop 10 (map (\<lambda>i. ((''id'', ''10:00''), string_of_nat i)) [0..<60]))"
  using log_bounded [of "(''id'', ''10:00'')" "''m''" "initial_state :: int app_state"
      "map (\<lambda>i. ((''id'', ''10:00''), string_of_nat i)) [0..<60]"]
  by simp


section \<open>Properties of the history manager\<close>

lemma undo_timeline:
  "history s \<noteq> [] \<Longrightarrow>
     timeline (handleUndo st s) = timeline s \<and>
     length (history (handleUndo st s)) = length (history s) - 1"
  by (simp add: handleUndo_def timeline_def Let_def)

lemma redo_timeline:
  "future s \<noteq> [] \<Longrightarrow>
     timeline (handleRedo st s) = timeline s \<and>
     length (history (handleRedo st s)) = length (history s) + 1"
  by (cases "future s") (simp_all add: handleRedo_def timeline_def Let_def)

lemma timeline_length: "length (timeline s) = length (history s) + 1 + length (future s)"
  by (simp add: timeline_def)

lemma undos_timeline:
  "length us \<le> length (history s) \<Longrightarrow>
     timeline (undos us s) = timeline s \<and>
     length (history (undos us s)) = length (history s) - length us"
proof (induction us arbitrary: s)
  case Nil
  then show ?case by (simp add: undos_def)
next
  case (Cons u us)
  then have ne: "history s \<noteq> []" by auto
  from undo_timeline [OF ne, of u] Cons.prems
  have "length us \<le> length (history (handleUndo u s))" by simp
  from Cons.IH [OF this] undo_timeline [OF ne, of u] show ?case by (simp add: undos_def)
qed

lemma redos_timeline:
  "length rs \<le> length (future s) \<Longrightarrow>
     timeline (redos rs s) = timeline s \<and>
     length (history (redos rs s)) = length (history s) + length rs"
proof (induction rs arbitrary: s)
  case Nil
  then show ?case by (simp add: redos_def)
next
  case (Cons r rs)
  then have ne: "future s \<noteq> []" by auto
  have "length (timeline (handleRedo r s)) = length (timeline s)"
    using redo_timeline [OF ne, of r] by simp
  then have "length (history (handleRedo r s)) + length (future (handleRedo r s)) =
      length (history s) + length (future s)"
    by (simp add: timeline_length)
  with redo_timeline [OF ne, of r] Cons.prems
  have "length rs \<le> length (future (handleRedo r s))"
    by simp
  from Cons.IH [OF this] redo_timeline [OF ne, of r] show ?case by (simp add: redos_def)
qed

lemma timeline_determines:
  assumes "timeline s = timeline s'" "length (history s) = length (history s')"
  shows "history s = history s' \<and> btnProps s = btnProps s' \<and> future s = future s'"
  using assms by (simp add: timeline_def)

lemma applies_history:
  "history (applies ps s) = history s @ butlast (btnProps s # ps)"
  unfolding applies_def by (induction ps arbitrary: s) (simp_all add: updateBtnProps_def)

lemma applies_future:
  "future s = [] \<Longrightarrow> future (applies ps s) = []"
  unfolding applies_def by (induction ps arbitrary: s) (simp_all add: updateBtnProps_def)

text \<open>
  C1. Start in a state whose future stack is empty, as the initial state is, and apply
  any list \<open>ps\<close> of snapshots with history recorded. For every \<open>N\<close> up to the number of
  applies, \<open>N\<close> undos followed by \<open>N\<close> redos give back the current snapshot that was
  current before the undos, leave the future stack empty, and give back the past stack
  as well.
\<close>

theorem undo_redo_roundtrip:
  assumes "future s0 = []"
    and "s = applies ps s0"
    and "length us = N" and "length rs = N" and "N \<le> length ps"
  shows "btnProps (redos rs (undos us s)) = btnProps s \<and>
         future (redos rs (undos us s)) = [] \<and>
         history (redos rs (undos us s)) = history s"
proof -
  let ?u = "undos us s"
  let ?r = "redos rs ?u"
  have fut: "future s = []" using assms(1,2) by (simp add: applies_future)
  have "length (history s) = length (history s0) + length ps"
    using assms(2) by (simp add: applies_history)
  then have le: "length us \<le> length (history s)" using assms(3,5) by simp
  note u = undos_timeline [OF le]
  have "length (timeline ?u) = length (timeline s)" using u by simp
  then have "length (history ?u) + length (future ?u) = length (history s) + length (future s)"
    by (simp add: timeline_length)
  then have "length rs \<le> length (future ?u)"
    using u le assms(3,4) by simp
  note r = redos_timeline [OF this]
  have "timeline ?r = timeline s" using r u by simp
  moreover have "length (history ?r) = length (history s)"
    using r u le assms(3,4) by simp
  ultimately show ?thesis using timeline_determines [of ?r s] fut by simp
qed

theorem undo_redo_roundtrip_witness:
  "future (initial_state :: int app_state) = [] \<and>
   length [(''a1'', ''10:00''), (''a2'', ''10:01'')] = (2::nat) \<and>
   length [(''a3'', ''10:02''), (''a4'', ''10:03'')] = (2::nat) \<and>
   (2::nat) \<le> length [JStr ''p'', JStr ''q'', JStr ''r'' :: int jsval] \<and>
   btnProps (redos [(''a3'', ''10:02''), (''a4'', ''10:03'')]
              (undos [(''a1'', ''10:00''), (''a2'', ''10:01'')]
                (applies [JStr ''p'', JStr ''q'', JStr ''r''] (initial_state :: int app_state))))
     = JStr ''r'' \<and>
   future (redos [(''a3'', ''10:02''), (''a4'', ''10:03'')]
              (undos [(''a1'', ''10:00''), (''a2'', ''10:01'')]
                (applies [JStr ''p'', JStr ''q'', JStr ''r''] (initial_state :: int app_state))))
     = []"
proof -
  have f: "future (initial_state :: int app_state) = []"
    by (simp add: initial_state_def)
  have b: "btnProps (applies [JStr ''p'', JStr ''q'', JStr ''r''] (initial_state :: int app_state))
      = JStr ''r''"
    by (simp add: applies_def updateBtnProps_def)
  show ?thesis
    using undo_redo_roundtrip [OF f refl, of "[(''a1'', ''10:00''), (''a2'', ''10:01'')]" 2
        "[(''a3'', ''10:02''), (''a4'', ''10:03'')]" "[JStr ''p'', JStr ''q'', JStr ''r'']"]
      f b
    by simp
qed

text \<open>
  C2. \<open>apply\<close> with history recorded pushes the previous current snapshot onto the past
  stack, empties the future stack whatever it held, and makes the new snapshot
  current; without history recorded it makes the new snapshot current and leaves both
  stacks as they were.
\<close>

theorem updateBtnProps_stacks:
  "history (updateBtnProps p True s) = history s @ [btnProps s] \<and>
   future (updateBtnProps p True s) = [] \<and>
   btnProps (updateBtnProps p True s) = p \<and>
   btnProps (updateBtnProps p False s) = p \<and>
   history (updateBtnProps p False s) = history s \<and>
   future (updateBtnProps p False s) = future s"
  by (simp add: updateBtnProps_def)

text \<open>
  C6. Undo on an empty past stack and redo on an empty future stack return the state
  they were given: current snapshot, both stacks and the log are unchanged.
\<close>

theorem undo_redo_empty_noop:
  "(history s = [] \<longrightarrow> handleUndo st s = s) \<and> (future s = [] \<longrightarrow> handleRedo st s = s)"
  by (simp add: handleUndo_def handleRedo_def)

theorem undo_redo_empty_noop_witness:
  "history (initial_state :: int app_state) = [] \<and>
   handleUndo (''a1'', ''10:00'') (initial_state :: int app_state) = initial_state \<and>
   future (initial_state :: int app_state) = [] \<and>
   handleRedo (''a1'', ''10:00'') (initial_state :: int app_state) = initial_state"
  using undo_redo_empty_noop [of "initial_state :: int app_state" "(''a1'', ''10:00'')"]
  by (simp add: initial_state_def)

text \<open>
  C7. A code-panel edit whose text parses applies the parsed value as the current
  snapshot with history recorded: the previous snapshot is pushed onto the past stack
  and the future stack is emptied. An edit whose text does not parse changes nothing
  but the text buffer, which holds the new text in both cases.
\<close>

theorem handleCodeChange_parse:
  "btnProps (handleCodeChange newVal (Some v) s) = v \<and>
   history (handleCodeChange newVal (Some v) s) = history s @ [btnProps s] \<and>
   future (handleCodeChange newVal (Some v) s) = [] \<and>
   codeText (handleCodeChange newVal (Some v) s) = newVal \<and>
   handleCodeChange newVal None s = s\<lparr>codeText := newVal\<rparr> \<and>
   btnProps (handleCodeChange newVal None s) = btnProps s \<and>
   history (handleCodeChange newVal None s) = history s \<and>
   future (handleCodeChange newVal None s) = future s \<and>
   logs (handleCodeChange newVal None s) = logs s"
  by (simp add: handleCodeChange_def updateBtnProps_def)

section \<open>Properties of the window manager\<close>

lemma maxZ_ge: "zIndex (w i) \<le> maxZ w"
  by (cases i) (simp_all add: maxZ_def)

lemma toggle_z_distinct: "z_distinct (windows s) \<Longrightarrow> z_distinct (windows (toggleWindow i s))"
  by (cases i) (auto simp: toggleWindow_def z_distinct_def maxZ_def Let_def)

lemma bring_z_distinct: "z_distinct (windows s) \<Longrightarrow> z_distinct (windows (bringToFront i s))"
  by (cases i) (auto simp: bringToFront_def z_distinct_def maxZ_def Let_def)

lemma window_run_z_distinct:
  "z_distinct (windows s) \<Longrightarrow> z_distinct (windows (window_run cs s))"
proof (induction cs arbitrary: s)
  case Nil
  then show ?case by (simp add: window_run_def)
next
  case (Cons c cs)
  have "z_distinct (windows (window_step c s))"
    using Cons.prems by (cases c) (simp_all add: toggle_z_distinct bring_z_distinct)
  from Cons.IH [OF this] show ?case by (simp add: window_run_def)
qed

lemma initial_z_distinct: "z_distinct (windows initial_state)"
  by (simp add: initial_state_def z_distinct_def)

lemma z_distinct_front:
  assumes "z_distinct w"
  shows "\<exists>!i. \<forall>j. j \<noteq> i \<longrightarrow> zIndex (w j) < zIndex (w i)"
proof -
  have all3: "\<And>P. (\<forall>j::WindowId. P j) \<longleftrightarrow> P control \<and> P code \<and> P console"
    by (metis WindowId.exhaust)
  have d: "zIndex (w control) \<noteq> zIndex (w code)" "zIndex (w control) \<noteq> zIndex (w console)"
    "zIndex (w code) \<noteq> zIndex (w console)"
    using assms by (simp_all add: z_distinct_def)
  consider "zIndex (w code) < zIndex (w control) \<and> zIndex (w console) < zIndex (w control)"
    | "zIndex (w control) < zIndex (w code) \<and> zIndex (w console) < zIndex (w code)"
    | "zIndex (w control) < zIndex (w console) \<and> zIndex (w code) < zIndex (w console)"
    using d by linarith
  then have ex: "\<exists>i. \<forall>j. j \<noteq> i \<longrightarrow> zIndex (w j) < zIndex (w i)"
  proof cases
    case 1
    then have "\<forall>j. j \<noteq> control \<longrightarrow> zIndex (w j) < zIndex (w control)" by (simp add: all3)
    then show ?thesis ..
  next
    case 2
    then have "\<forall>j. j \<noteq> code \<longrightarrow> zIndex (w j) < zIndex (w code)" by (simp add: all3)
    then show ?thesis ..
  next
    case 3
    then have "\<forall>j. j \<noteq> console \<longrightarrow> zIndex (w j) < zIndex (w console)" by (simp add: all3)
    then show ?thesis ..
  qed
  show ?thesis
  proof (rule ex_ex1I [OF ex])
    fix a b
    assume a: "\<forall>j. j \<noteq> a \<longrightarrow> zIndex (w j) < zIndex (w a)"
      and b: "\<forall>j. j \<noteq> b \<longrightarrow> zIndex (w j) < zIndex (w b)"
    show "a = b"
    proof (rule ccontr)
      assume "a \<noteq> b"
      with a b have "zIndex (w b) < zIndex (w a)" "zIndex (w a) < zIndex (w b)" by auto
      then show False by simp
    qed
  qed
qed

text \<open>
  C3. In every state reached from the initial one by \<open>toggleWindow\<close> and
  \<open>bringToFront\<close> calls, the three z-orders are pairwise distinct and exactly one
  window is strictly above the other two. There, \<open>toggleWindow\<close> gives the window
  \<open>maxZ + 1\<close> when it opens it and keeps its z-order when it closes it,
  \<open>bringToFront\<close> gives it \<open>maxZ + 1\<close> when it does not hold the maximum and changes
  nothing when it does, and neither touches another window.
\<close>

theorem windows_z_order:
  fixes s :: "'n app_state"
  assumes "s = window_run cs initial_state"
  shows "z_distinct (windows s) \<and>
    (\<exists>!f. \<forall>j. j \<noteq> f \<longrightarrow> zIndex (windows s j) < zIndex (windows s f)) \<and>
    (\<not> isOpen (windows s i) \<longrightarrow>
       isOpen (windows (toggleWindow i s) i) \<and>
       zIndex (windows (toggleWindow i s) i) = maxZ (windows s) + 1) \<and>
    (isOpen (windows s i) \<longrightarrow>
       \<not> isOpen (windows (toggleWindow i s) i) \<and>
       zIndex (windows (toggleWindow i s) i) = zIndex (windows s i)) \<and>
    (zIndex (windows s i) \<noteq> maxZ (windows s) \<longrightarrow>
       zIndex (windows (bringToFront i s) i) = maxZ (windows s) + 1) \<and>
    (zIndex (windows s i) = maxZ (windows s) \<longrightarrow> bringToFront i s = s) \<and>
    (\<forall>j. j \<noteq> i \<longrightarrow> windows (toggleWindow i s) j = windows s j \<and>
                    windows (bringToFront i s) j = windows s j)"
proof -
  have d: "z_distinct (windows s)"
    unfolding assms by (rule window_run_z_distinct [OF initial_z_distinct])
  have t: "(\<not> isOpen (windows s i) \<longrightarrow>
       isOpen (windows (toggleWindow i s) i) \<and>
       zIndex (windows (toggleWindow i s) i) = maxZ (windows s) + 1) \<and>
    (isOpen (windows s i) \<longrightarrow>
       \<not> isOpen (windows (toggleWindow i s) i) \<and>
       zIndex (windows (toggleWindow i s) i) = zIndex (windows s i))"
    by (simp add: toggleWindow_def Let_def)
  have b: "(zIndex (windows s i) \<noteq> maxZ (windows s) \<longrightarrow>
       zIndex (windows (bringToFront i s) i) = maxZ (windows s) + 1) \<and>
    (zIndex (windows s i) = maxZ (windows s) \<longrightarrow> bringToFront i s = s)"
    by (simp add: bringToFront_def Let_def)
  have o: "\<forall>j. j \<noteq> i \<longrightarrow> windows (toggleWindow i s) j = windows s j \<and>
                    windows (bringToFront i s) j = windows s j"
    by (simp add: toggleWindow_def bringToFront_def Let_def)
  show ?thesis using d z_distinct_front [OF d] t b o by blast
qed

theorem windows_z_order_witness:
  "z_distinct (windows (window_run [Toggle code, BringToFront control]
      (initial_state :: int app_state))) \<and>
   \<not> isOpen (windows (window_run [Toggle code, BringToFront control]
      (initial_state :: int app_state)) console) \<and>
   zIndex (windows (toggleWindow console (window_run [Toggle code, BringToFront control]
      (initial_state :: int app_state))) console) = 6 \<and>
   zIndex (windows (bringToFront console (window_run [Toggle code, BringToFront control]
      (initial_state :: int app_state))) console) = 6 \<and>
   isOpen (windows (window_run [Toggle code, BringToFront control]
      (initial_state :: int app_state)) control) \<and>
   zIndex (windows (toggleWindow control (window_run [Toggle code, BringToFront control]
      (initial_state :: int app_state))) control) = 5 \<and>
   zIndex (windows (bringToFront control (window_run [Toggle code, BringToFront control]
      (initial_state :: int app_state))) control) = 5"
  using
    windows_z_order [OF refl, of "[Toggle code, BringToFront control]" console,
      where ?'n = int]
    windows_z_order [OF refl, of "[Toggle code, BringToFront control]" control,
      where ?'n = int]
  by (simp add: window_run_def toggleWindow_def bringToFront_def initial_state_def
      maxZ_def Let_def)

section \<open>Properties of the overlay toggles\<close>

lemma overlay_step_exclusive:
  "\<not> (showMeasurements s \<and> showTokens s) \<Longrightarrow>
   \<not> (showMeasurements (overlay_step e s) \<and> showTokens (overlay_step e s))"
  by (cases e) (auto simp: handleToggleMeasurements_def handleToggleTokens_def Let_def)

lemma overlay_run_exclusive:
  "\<not> (showMeasurements s \<and> showTokens s) \<Longrightarrow>
   \<not> (showMeasurements (overlay_run es s) \<and> showTokens (overlay_run es s))"
proof (induction es arbitrary: s)
  case Nil
  then show ?case by (simp add: overlay_run_def)
next
  case (Cons e es)
  from Cons.IH [OF overlay_step_exclusive [OF Cons.prems]]
  show ?case by (simp add: overlay_run_def)
qed

text \<open>
  C8. No sequence of overlay toggles from the initial state reaches a state with both
  overlays on. Turning the measurement overlay on while the token overlay is on turns
  the token overlay off, and the other way round; turning either on while the other is
  off leaves the other off.
\<close>

theorem overlays_exclusive:
  fixes s :: "'n app_state"
  shows
  "\<not> (showMeasurements (overlay_run es (initial_state :: 'n app_state)) \<and>
      showTokens (overlay_run es (initial_state :: 'n app_state))) \<and>
   (\<not> showMeasurements s \<and> showTokens s \<longrightarrow>
      showMeasurements (handleToggleMeasurements st s) \<and>
      \<not> showTokens (handleToggleMeasurements st s)) \<and>
   (\<not> showTokens s \<and> showMeasurements s \<longrightarrow>
      showTokens (handleToggleTokens st s) \<and>
      \<not> showMeasurements (handleToggleTokens st s)) \<and>
   (\<not> showMeasurements s \<and> \<not> showTokens s \<longrightarrow>
      showMeasurements (handleToggleMeasurements st s) \<and>
      \<not> showTokens (handleToggleMeasurements st s) \<and>
      showTokens (handleToggleTokens st s) \<and>
      \<not> showMeasurements (handleToggleTokens st s))"
proof -
  have "\<not> (showMeasurements (initial_state :: 'n app_state) \<and> showTokens (initial_state :: 'n app_state))"
    by (simp add: initial_state_def)
  from overlay_run_exclusive [OF this] show ?thesis
    by (simp add: handleToggleMeasurements_def handleToggleTokens_def Let_def)
qed

theorem overlays_exclusive_witness:
  "\<not> (showMeasurements (overlay_run [ToggleTokens (''a1'', ''10:00'')]
         (initial_state :: int app_state))) \<and>
   showTokens (overlay_run [ToggleTokens (''a1'', ''10:00'')] (initial_state :: int app_state)) \<and>
   showMeasurements (handleToggleMeasurements (''a2'', ''10:01'')
     (overlay_run [ToggleTokens (''a1'', ''10:00'')] (initial_state :: int app_state))) \<and>
   \<not> showTokens (handleToggleMeasurements (''a2'', ''10:01'')
     (overlay_run [ToggleTokens (''a1'', ''10:00'')] (initial_state :: int app_state))) \<and>
   \<not> showTokens (overlay_run [ToggleMeasurements (''a1'', ''10:00'')]
         (initial_state :: int app_state)) \<and>
   showMeasurements (overlay_run [ToggleMeasurements (''a1'', ''10:00'')]
         (initial_state :: int app_state)) \<and>
   showTokens (handleToggleTokens (''a2'', ''10:01'')
     (overlay_run [ToggleMeasurements (''a1'', ''10:00'')] (initial_state :: int app_state))) \<and>
   \<not> showMeasurements (handleToggleTokens (''a2'', ''10:01'')
     (overlay_run [ToggleMeasurements (''a1'', ''10:00'')] (initial_state :: int app_state)))"
  using
    overlays_exclusive [of "[]"
      "overlay_run [ToggleTokens (''a1'', ''10:00'')] (initial_state :: int app_state)"
      "(''a2'', ''10:01'')"]
    overlays_exclusive [of "[]"
      "overlay_run [ToggleMeasurements (''a1'', ''10:00'')] (initial_state :: int app_state)"
      "(''a2'', ''10:01'')"]
  by (simp add: overlay_run_def handleToggleMeasurements_def handleToggleTokens_def
      initial_state_def Let_def)

section \<open>Properties of property and code edits\<close>

text \<open>
  C5, as stated, fails for the code panel: an edit whose text parses replaces the
  current snapshot through \<open>updateBtnProps\<close> and the log stays as it was.
\<close>

theorem code_edit_not_logged:
  "btnProps (initial_state :: int app_state) \<noteq> JObj [] \<and>
   btnProps (handleCodeChange ''{}'' (Some (JObj [])) (initial_state :: int app_state)) = JObj [] \<and>
   logs (handleCodeChange ''{}'' (Some (JObj [])) (initial_state :: int app_state))
     = logs (initial_state :: int app_state)"
  by (simp add: handleCodeChange_def updateBtnProps_def initial_state_def initial_btnProps_def)

text \<open>
  C5, amended. A property change made through \<open>handlePropChange\<close> (one key, or the
  fields of a partial snapshot) records history and appends exactly one entry, which
  names the key and value or the changed fields. An undo on a non-empty past stack and
  a redo on a non-empty future stack append exactly one entry each, \<open>Undo performed\<close>
  and \<open>Redo performed\<close>. The new log is the last 49 entries of the old one followed by
  the new entry.
\<close>

theorem history_actions_logged:
  "logs (handlePropChange to_str st (Inl key) val s) =
     drop (length (logs s) - 49) (logs s) @
       [\<lparr>id_log = fst st, timestamp = snd st,
         message = ''Prop updated: '' @ key @ '' = '' @ to_str val\<rparr>] \<and>
   history (handlePropChange to_str st (Inl key) val s) = history s @ [btnProps s] \<and>
   logs (handlePropChange to_str st (Inr obj) val s) =
     drop (length (logs s) - 49) (logs s) @
       [\<lparr>id_log = fst st, timestamp = snd st,
         message = ''State updated: '' @ join '', '' (map fst obj)\<rparr>] \<and>
   history (handlePropChange to_str st (Inr obj) val s) = history s @ [btnProps s] \<and>
   (history s \<noteq> [] \<longrightarrow>
      logs (handleUndo st s) =
        drop (length (logs s) - 49) (logs s) @
          [\<lparr>id_log = fst st, timestamp = snd st, message = ''Undo performed''\<rparr>]) \<and>
   (future s \<noteq> [] \<longrightarrow>
      logs (handleRedo st s) =
        drop (length (logs s) - 49) (logs s) @
          [\<lparr>id_log = fst st, timestamp = snd st, message = ''Redo performed''\<rparr>])"
  by (simp add: handlePropChange_def handleUndo_def handleRedo_def logs_logEvent
      updateBtnProps_def slice_last_def Let_def)

theorem history_actions_logged_witness:
  "history (applies [JStr ''p''] (initial_state :: int app_state)) \<noteq> [] \<and>
   logs (handleUndo (''a1'', ''10:00'') (applies [JStr ''p''] (initial_state :: int app_state)))
     = [\<lparr>id_log = ''a1'', timestamp = ''10:00'', message = ''Undo performed''\<rparr>] \<and>
   future (handleUndo (''a1'', ''10:00'') (applies [JStr ''p''] (initial_state :: int app_state)))
     \<noteq> [] \<and>
   logs (handleRedo (''a2'', ''10:01'')
          (handleUndo (''a1'', ''10:00'') (applies [JStr ''p''] (initial_state :: int app_state))))
     = [\<lparr>id_log = ''a1'', timestamp = ''10:00'', message = ''Undo performed''\<rparr>,
        \<lparr>id_log = ''a2'', timestamp = ''10:01'', message = ''Redo performed''\<rparr>]"
proof -
  have h: "history (applies [JStr ''p''] (initial_state :: int app_state)) \<noteq> []"
    by (simp add: applies_def updateBtnProps_def)
  have f: "future (handleUndo (''a1'', ''10:00'')
      (applies [JStr ''p''] (initial_state :: int app_state))) \<noteq> []"
    by (simp add: applies_def updateBtnProps_def handleUndo_def Let_def)
  have l0: "logs (applies [JStr ''p''] (initial_state :: int app_state)) = []"
    by (simp add: applies_def updateBtnProps_def initial_state_def)
  show ?thesis
    using
      history_actions_logged [THEN conjunct2, THEN conjunct2, THEN conjunct2, THEN conjunct2,
        THEN conjunct1, THEN mp, OF h, of "(''a1'', ''10:00'')"]
      history_actions_logged [THEN conjunct2, THEN conjunct2, THEN conjunct2, THEN conjunct2,
        THEN conjunct2, THEN mp, OF f, of "(''a2'', ''10:01'')"]
      h f l0
    by simp
qed

section \<open>Properties of the token resolver\<close>

lemma nullish_if: "nullish a b = (if is_nullish a then b else a)"
  by (cases a) simp_all

lemma get_prop_absent: "\<not> has_key k kvs \<Longrightarrow> get_prop kvs k = JUndefined"
  by (simp add: has_key_def get_prop_def map_of_eq_None_iff [THEN iffD2])

lemma nullish_chain_spec:
  "nullish (nullish (nullish (get_prop kvs (key_of bp)) (get_prop kvs ''desktop''))
             (get_prop kvs ''tablet'')) (get_prop kvs ''mobile'')
   = spec_select kvs bp"
proof -
  have a: "\<And>k. (has_key k kvs \<and> \<not> is_nullish (get_prop kvs k)) = (\<not> is_nullish (get_prop kvs k))"
  proof -
    fix k
    show "(has_key k kvs \<and> \<not> is_nullish (get_prop kvs k)) = (\<not> is_nullish (get_prop kvs k))"
      by (cases "has_key k kvs") (simp_all add: get_prop_absent)
  qed
  show ?thesis
    by (simp add: spec_select_def a nullish_if)
qed

lemma update_fresh: "k \<notin> fst ` set acc \<Longrightarrow> AList.update k v acc = acc @ [(k, v)]"
  by (induction acc) auto

lemma resolve_loop_fold:
  "resolve_loop kvs bp acc = fold (\<lambda>(k, v). assign_prop k (resolve_value v bp)) kvs acc"
proof (induction kvs arbitrary: acc)
  case Nil
  then show ?case by simp
next
  case (Cons p kvs)
  obtain k v where p: "p = (k, v)" by (cases p)
  show ?case by (simp add: p Cons.IH)
qed



lemma resolve_value_object:
  "\<not> isResponsiveObject (JObj r) \<Longrightarrow> resolve_value (JObj r) bp = resolveTokens (JObj r) bp"
  by (simp add: resolveTokens_def)

lemma resolve_value_responsive:
  "isResponsiveObject (JObj r) \<Longrightarrow> resolve_value (JObj r) bp = spec_select r bp"
  by (simp add: nullish_chain_spec)

lemma fold_assign_plain:
  "distinct (map fst kvs) \<Longrightarrow> ''__proto__'' \<notin> fst ` set kvs \<Longrightarrow>
   fst ` set kvs \<inter> fst ` set acc = {} \<Longrightarrow>
   fold (\<lambda>(k, v). assign_prop k (f v)) kvs acc = acc @ map (\<lambda>(k, v). (k, f v)) kvs"
proof (induction kvs arbitrary: acc)
  case Nil
  then show ?case by simp
next
  case (Cons p kvs)
  obtain k v where p: "p = (k, v)" by (cases p)
  have fresh: "k \<notin> fst ` set acc" using Cons.prems(3) p by auto
  have np: "k \<noteq> ''__proto__''" using Cons.prems(2) p by auto
  have d: "distinct (map fst kvs)" using Cons.prems(1) by simp
  have n: "''__proto__'' \<notin> fst ` set kvs" using Cons.prems(2) by simp
  have "fst ` set kvs \<inter> fst ` set (acc @ [(k, f v)]) = {}"
    using Cons.prems p by auto
  from Cons.IH [OF d n this] show ?case
    by (simp add: p assign_prop_def np update_fresh [OF fresh])
qed

lemma resolveTokens_entries:
  "plain_tree (JObj kvs) \<Longrightarrow>
   resolveTokens (JObj kvs) bp = JObj (map (\<lambda>(k, v). (k, resolve_value v bp)) kvs)"
  by (simp add: resolveTokens_def resolve_loop_fold fold_assign_plain)

lemma map_of_entries:
  "distinct (map fst kvs) \<Longrightarrow> (k, v) \<in> set kvs \<Longrightarrow>
   map_of (map (\<lambda>(k, v). (k, f v)) kvs) k = Some (f v)"
  by (induction kvs) (auto simp: rev_image_eqI)

lemma resolveTokens_at_key:
  assumes "plain_tree (JObj kvs)" and "(k, v) \<in> set kvs"
  shows "map_of (own_props (resolveTokens (JObj kvs) bp)) k = Some (resolve_value v bp)"
proof -
  have d: "distinct (map fst kvs)" using assms(1) by simp
  show ?thesis
    by (simp add: resolveTokens_entries [OF assms(1)] map_of_entries [OF d assms(2)])
qed

lemma spec_select_stored:
  "spec_select r bp \<in> set (map (get_prop r) [key_of bp, ''desktop'', ''tablet'', ''mobile''])"
  by (simp add: spec_select_def)




text \<open>
  C10, as stated, fails for a responsive object that is the object handed to
  \<open>resolveTokens\<close>: it is walked like any other object, so the branch under its
  \<open>desktop\<close> key is resolved, not returned as it is stored.
\<close>

theorem responsive_root_walked:
  "isResponsiveObject
     (JObj [(''desktop'',
             JObj [(''size'', JObj [(''mobile'', JStr ''a''), (''desktop'', JStr ''b'')])])]
      :: int jsval) \<and>
   resolveTokens
     (JObj [(''desktop'',
             JObj [(''size'', JObj [(''mobile'', JStr ''a''), (''desktop'', JStr ''b'')])])])
     tablet
     = (JObj [(''desktop'', JObj [(''size'', JStr ''b'')])] :: int jsval) \<and>
   resolveTokens
     (JObj [(''desktop'',
             JObj [(''size'', JObj [(''mobile'', JStr ''a''), (''desktop'', JStr ''b'')])])])
     tablet
     \<noteq> (JObj [(''size'', JObj [(''mobile'', JStr ''a''), (''desktop'', JStr ''b'')])]
         :: int jsval)"
  by (simp add: resolveTokens_def has_key_def get_prop_def assign_prop_def)

text \<open>
  C10, amended. Let \<open>obj\<close> be a tree of plain objects (keys distinct and none of them
  \<open>__proto__\<close>, at every depth). Under a key whose value in \<open>obj\<close> is a responsive
  object, the result holds the selected branch exactly as that object stores it (one
  of its four candidate reads), with no call of \<open>resolveTokens\<close> on it; under a key
  whose value is an object that is not responsive it holds \<open>resolveTokens\<close> of that
  object. A responsive object below a selected desktop branch therefore stays
  unresolved, and the same object below a key that is no breakpoint is resolved.
\<close>

theorem responsive_value_not_walked:
  assumes "plain_tree (JObj kvs)" and "(k, JObj r) \<in> set kvs"
  shows "(isResponsiveObject (JObj r) \<longrightarrow>
            map_of (own_props (resolveTokens (JObj kvs) bp)) k = Some (spec_select r bp) \<and>
            spec_select r bp \<in>
              set (map (get_prop r) [key_of bp, ''desktop'', ''tablet'', ''mobile''])) \<and>
         (\<not> isResponsiveObject (JObj r) \<longrightarrow>
            map_of (own_props (resolveTokens (JObj kvs) bp)) k = Some (resolveTokens (JObj r) bp)) \<and>
         resolveTokens (JObj [(''k'', JObj [(''desktop'',
             JObj [(''size'', JObj [(''mobile'', JStr ''a''), (''desktop'', JStr ''b'')])])])]) tablet
           = (JObj [(''k'',
               JObj [(''size'', JObj [(''mobile'', JStr ''a''), (''desktop'', JStr ''b'')])])]
              :: 'n jsval) \<and>
         resolveTokens (JObj [(''k'', JObj [(''inner'',
             JObj [(''size'', JObj [(''mobile'', JStr ''a''), (''desktop'', JStr ''b'')])])])]) tablet
           = (JObj [(''k'', JObj [(''inner'', JObj [(''size'', JStr ''b'')])])] :: 'n jsval)"
proof -
  note at_k = resolveTokens_at_key [OF assms, of bp]
  have a: "isResponsiveObject (JObj r) \<longrightarrow>
            map_of (own_props (resolveTokens (JObj kvs) bp)) k = Some (spec_select r bp)"
    using at_k by (simp add: resolve_value_responsive del: resolve_value.simps)
  have b: "\<not> isResponsiveObject (JObj r) \<longrightarrow>
            map_of (own_props (resolveTokens (JObj kvs) bp)) k = Some (resolveTokens (JObj r) bp)"
    using at_k by (simp add: resolve_value_object del: resolve_value.simps)
  have e1: "resolveTokens (JObj [(''k'', JObj [(''desktop'',
             JObj [(''size'', JObj [(''mobile'', JStr ''a''), (''desktop'', JStr ''b'')])])])]) tablet
           = (JObj [(''k'',
               JObj [(''size'', JObj [(''mobile'', JStr ''a''), (''desktop'', JStr ''b'')])])]
              :: 'n jsval)"
    by (simp add: resolveTokens_def has_key_def get_prop_def assign_prop_def)
  have e2: "resolveTokens (JObj [(''k'', JObj [(''inner'',
             JObj [(''size'', JObj [(''mobile'', JStr ''a''), (''desktop'', JStr ''b'')])])])]) tablet
           = (JObj [(''k'', JObj [(''inner'', JObj [(''size'', JStr ''b'')])])] :: 'n jsval)"
    by (simp add: resolveTokens_def has_key_def get_prop_def assign_prop_def)
  show ?thesis using a b e1 e2 spec_select_stored [of r bp] by blast
qed

theorem responsive_value_not_walked_witness:
  "plain_tree (JObj [(''k'', JObj [(''desktop'',
       JObj [(''size'', JObj [(''mobile'', JStr ''a''), (''desktop'', JStr ''b'' :: int jsval)])])])]) \<and>
   (''k'', JObj [(''desktop'',
       JObj [(''size'', JObj [(''mobile'', JStr ''a''), (''desktop'', JStr ''b'')])])])
     \<in> set [(''k'', JObj [(''desktop'',
       JObj [(''size'', JObj [(''mobile'', JStr ''a''), (''desktop'', JStr ''b'' :: int jsval)])])])] \<and>
   isResponsiveObject (JObj [(''desktop'',
       JObj [(''size'', JObj [(''mobile'', JStr ''a''), (''desktop'', JStr ''b'' :: int jsval)])])]) \<and>
   map_of (own_props (resolveTokens (JObj [(''k'', JObj [(''desktop'',
       JObj [(''size'', JObj [(''mobile'', JStr ''a''), (''desktop'', JStr ''b'' :: int jsval)])])])])
       tablet)) ''k''
     = Some (JObj [(''size'', JObj [(''mobile'', JStr ''a''), (''desktop'', JStr ''b'')])])"
proof -
  have d: "plain_tree (JObj [(''k'', JObj [(''desktop'',
       JObj [(''size'', JObj [(''mobile'', JStr ''a''), (''desktop'', JStr ''b'' :: int jsval)])])])])"
    by simp
  have m: "(''k'', JObj [(''desktop'',
       JObj [(''size'', JObj [(''mobile'', JStr ''a''), (''desktop'', JStr ''b'')])])])
     \<in> set [(''k'', JObj [(''desktop'',
       JObj [(''size'', JObj [(''mobile'', JStr ''a''), (''desktop'', JStr ''b'' :: int jsval)])])])]"
    by simp
  have i: "isResponsiveObject (JObj [(''desktop'',
       JObj [(''size'', JObj [(''mobile'', JStr ''a''), (''desktop'', JStr ''b'' :: int jsval)])])])"
    by (simp add: has_key_def)
  have r: "map_of (own_props (resolveTokens (JObj [(''k'', JObj [(''desktop'',
       JObj [(''size'', JObj [(''mobile'', JStr ''a''), (''desktop'', JStr ''b'' :: int jsval)])])])])
       tablet)) ''k''
     = Some (JObj [(''size'', JObj [(''mobile'', JStr ''a''), (''desktop'', JStr ''b'')])])"
    using responsive_value_not_walked [OF d m, of tablet, THEN conjunct1, THEN mp, OF i,
        THEN conjunct1]
    by (simp add: spec_select_def has_key_def get_prop_def)
  show ?thesis using d m i r by blast
qed

end
